theory Spec2Isabelle
  imports Main
begin

section \<open>Exceptions, console output and Python strings\<close>

text \<open>
  The program is one Python module, \<^verbatim>\<open>email_analyzer.py\<close>. Every \<^verbatim>\<open>try\<close> block of
  it catches \<^verbatim>\<open>Exception\<close>, so an exception is a value: a computation that may raise
  returns \<open>exn + 'a\<close>, with \<open>Inl\<close> for the exception. The constructors name the
  exceptions the statements of the module can raise; \<open>ProviderError\<close> and
  \<open>LibraryError\<close> stand for whatever the mail provider's client and the clustering
  library raise.
\<close>

datatype exn =
    ProviderError string
  | LibraryError string
  | KeyError string
  | IndexError
  | ZeroDivisionError
  | OverflowError
  | OSError string

text \<open>
  Every \<^verbatim>\<open>print\<close> and the \<^verbatim>\<open>time.sleep\<close> of the module is an event; the events are
  kept in the order the module produces them. The arguments are the values the
  f-string of the source interpolates.
\<close>

datatype event =
    TotalUnread int               \<comment> \<open>Total unread emails (excluding spam and archived): ..\<close>
  | FetchingPage nat              \<comment> \<open>Fetching page .. of unread emails...\<close>
  | FetchedIds nat int            \<comment> \<open>Fetched message IDs: ../..\<close>
  | ReachedExpected               \<comment> \<open>Reached expected number of unread emails. Stopping fetch.\<close>
  | NoUnread                      \<comment> \<open>No unread messages found.\<close>
  | Processing nat                \<comment> \<open>Processing .. unread emails...\<close>
  | ProcessingEmail nat nat       \<comment> \<open>Processing email ../.....\<close>
  | Pausing                       \<comment> \<open>Pausing briefly to avoid rate limits...\<close>
  | Sleep nat                     \<comment> \<open>time.sleep(..)\<close>
  | ErrorOccurred exn             \<comment> \<open>An error occurred: ..\<close>
  | CategorizationError exn       \<comment> \<open>Error in categorization: ..\<close>
  | SavedTo string                \<comment> \<open>Categories saved to ..\<close>
  | SaveError exn                 \<comment> \<open>Error saving to file: ..\<close>

text \<open>
  A Python string is a \<open>string\<close>, one \<open>char\<close> per code point; code points from 256
  on are outside the model. \<^verbatim>\<open>str.strip()\<close> removes leading and trailing white space,
  which below 256 is the characters 9 to 13, 28 to 32, 133 and 160.
\<close>

definition py_isspace :: "char \<Rightarrow> bool" where
  "py_isspace c =
     (let n = (of_char c :: nat)
      in (9 \<le> n \<and> n \<le> 13) \<or> (28 \<le> n \<and> n \<le> 32) \<or> n = 133 \<or> n = 160)"

definition strip :: "string \<Rightarrow> string" where
  "strip s = rev (dropWhile py_isspace (rev (dropWhile py_isspace s)))"

text \<open>Truth value of an optional string: \<^verbatim>\<open>None\<close> and \<^verbatim>\<open>''\<close> are false.\<close>

fun truthy :: "string option \<Rightarrow> bool" where
  "truthy None = False"
| "truthy (Some s) = (s \<noteq> [])"

section \<open>The comparison \<^verbatim>\<open>len(all_messages) >= total_count * 1.1\<close>\<close>

text \<open>
  \<^verbatim>\<open>total_count * 1.1\<close> is a product of doubles. Python first converts the integer to
  the nearest double (ties to even; \<^verbatim>\<open>OverflowError\<close> when it is out of range), then
  multiplies by the double nearest to 1.1, which is \<open>4953959590107546 / 2 ^ 52\<close>, and
  rounds the product to the nearest double (infinity when it is out of range; no
  exception). An integer is compared with a double by value, exactly.

  \<open>round53 n\<close> is \<open>n\<close> rounded to 53 significant bits, ties to even.
\<close>

fun bit_length :: "nat \<Rightarrow> nat" where
  "bit_length n = (if n = 0 then 0 else Suc (bit_length (n div 2)))"

declare bit_length.simps [simp del]

definition round53 :: "nat \<Rightarrow> nat" where
  "round53 n =
     (if bit_length n \<le> 53 then n
      else
        let s = bit_length n - 53;
            q = n div 2 ^ s;
            r = n mod 2 ^ s;
            h = 2 ^ (s - 1)
        in (if h < r \<or> (r = h \<and> odd q) then q + 1 else q) * 2 ^ s)"

definition float_1_1 :: nat where
  "float_1_1 = 4953959590107546"

definition safety_margin_reached :: "nat \<Rightarrow> int \<Rightarrow> exn + bool" where
  "safety_margin_reached n total_count =
     (let f = round53 (nat \<bar>total_count\<bar>)
      in if 2 ^ 1024 \<le> f then Inl OverflowError
         else if total_count < 0 then Inr True
         else
           let p = round53 (f * float_1_1)
           in if 2 ^ 1076 \<le> p then Inr False
              else Inr (p \<le> n * 2 ^ 52))"

section \<open>The mail provider\<close>

text \<open>
  A listed message is a dictionary; the module reads its \<^verbatim>\<open>'id'\<close> only, so a listed
  message is the value under that key, \<open>None\<close> when the key is missing. A list response
  is read through \<^verbatim>\<open>.get\<close>, so each of its keys may be missing.
\<close>

type_synonym message_ref = "string option"

record list_response =
  resultSizeEstimate :: "int option"
  messages :: "message_ref list option"
  nextPageToken :: "string option"

text \<open>
  A message in the \<^verbatim>\<open>metadata\<close> format. \<open>msg_headers\<close> is \<^verbatim>\<open>msg['payload']['headers']\<close>,
  a list of dictionaries read at \<^verbatim>\<open>'name'\<close> and \<^verbatim>\<open>'value'\<close>.
\<close>

record raw_message =
  msg_id :: "string option"
  msg_threadId :: "string option"
  msg_headers :: "(string option \<times> string option) list option"
  msg_snippet :: "string option"

text \<open>
  The provider answers three kinds of request: the count query (\<^verbatim>\<open>maxResults=1\<close>), the
  page requests of the pagination loop, and one metadata request per listed message.
  \<open>list_pages\<close> holds the provider's answers to the successive page requests, each
  a function of the page token the request carries; \<open>get_metadata i id\<close> is the answer
  to the request for \<open>id\<close>, made for the message at position \<open>i\<close>. The query string, the
  user id and the page size are constants of the module.
\<close>

record service =
  list_estimate :: "exn + list_response"
  list_pages :: "(string option \<Rightarrow> exn + list_response) list"
  get_metadata :: "nat \<Rightarrow> string \<Rightarrow> exn + raw_message"

section \<open>Fetching the unread messages\<close>

definition get_unread_email_count :: "service \<Rightarrow> exn + int" where
  "get_unread_email_count svc =
     (case list_estimate svc of
        Inl e \<Rightarrow> Inl e
      | Inr response \<Rightarrow>
          Inr (case resultSizeEstimate response of None \<Rightarrow> 0 | Some estimate \<Rightarrow> estimate))"

text \<open>The variables of the pagination loop, with the output printed so far.\<close>

record fetch_state =
  printed :: "event list"
  all_messages :: "message_ref list"
  next_page_token :: "string option"
  page_count :: nat

text \<open>
  The loop \<^verbatim>\<open>while True\<close> of \<^verbatim>\<open>get_all_unread_emails\<close>, run against the provider's answers.
  The result is \<open>None\<close> when the loop asks for a page beyond the given answers, and
  otherwise the state at the \<^verbatim>\<open>break\<close> (second component \<open>None\<close>) or at the exception
  raised (second component \<open>Some e\<close>).
\<close>

fun fetch_pages ::
  "int \<Rightarrow> (string option \<Rightarrow> exn + list_response) list \<Rightarrow> fetch_state
     \<Rightarrow> (fetch_state \<times> exn option) option" where
  "fetch_pages total_count [] st = None"
| "fetch_pages total_count (page # pages) st =
     (let st1 = st\<lparr>page_count := page_count st + 1\<rparr>;
          st2 = st1\<lparr>printed := printed st1 @ [FetchingPage (page_count st1)]\<rparr>
      in case page (next_page_token st2) of
           Inl e \<Rightarrow> Some (st2, Some e)
         | Inr response \<Rightarrow>
             (let msgs = (case messages response of None \<Rightarrow> [] | Some ms \<Rightarrow> ms)
              in if msgs = [] then Some (st2, None)
                 else
                   let st3 = st2\<lparr>all_messages := all_messages st2 @ msgs\<rparr>;
                       st4 = st3\<lparr>printed := printed st3 @
                               [FetchedIds (length (all_messages st3)) total_count]\<rparr>;
                       st5 = st4\<lparr>next_page_token := nextPageToken response\<rparr>
                   in if \<not> truthy (next_page_token st5) then Some (st5, None)
                      else
                        (case safety_margin_reached (length (all_messages st5)) total_count of
                           Inl e \<Rightarrow> Some (st5, Some e)
                         | Inr reached \<Rightarrow>
                             if reached
                             then Some (st5\<lparr>printed := printed st5 @ [ReachedExpected]\<rparr>, None)
                             else fetch_pages total_count pages st5)))"

text \<open>
  A record of the program is a dictionary with the keys below; a key that was never
  set is \<open>None\<close>.
\<close>

record email =
  e_id :: "string option"
  e_threadId :: "string option"
  e_from :: "string option"
  e_subject :: "string option"
  e_date :: "string option"
  e_has_body :: "bool option"
  e_body :: "string option"
  e_category :: "string option"

definition empty_email :: email where
  "empty_email =
     \<lparr>e_id = None, e_threadId = None, e_from = None, e_subject = None, e_date = None,
      e_has_body = None, e_body = None, e_category = None\<rparr>"

text \<open>The loop over the headers: three \<^verbatim>\<open>if\<close> statements per header, in this order.\<close>

definition header_value :: "string option \<Rightarrow> exn + string" where
  "header_value v = (case v of None \<Rightarrow> Inl (KeyError ''value'') | Some s \<Rightarrow> Inr s)"

fun header_loop :: "email \<Rightarrow> (string option \<times> string option) list \<Rightarrow> exn + email" where
  "header_loop d [] = Inr d"
| "header_loop d ((name, v) # headers) =
     (case name of
        None \<Rightarrow> Inl (KeyError ''name'')
      | Some n \<Rightarrow>
          (case (if n = ''From''
                 then (case header_value v of Inl e \<Rightarrow> Inl e
                       | Inr s \<Rightarrow> Inr (d\<lparr>e_from := Some s\<rparr>))
                 else Inr d) of
             Inl e \<Rightarrow> Inl e
           | Inr d1 \<Rightarrow>
               (case (if n = ''Subject''
                      then (case header_value v of Inl e \<Rightarrow> Inl e
                            | Inr s \<Rightarrow> Inr (d1\<lparr>e_subject := Some s\<rparr>))
                      else Inr d1) of
                  Inl e \<Rightarrow> Inl e
                | Inr d2 \<Rightarrow>
                    (case (if n = ''Date''
                           then (case header_value v of Inl e \<Rightarrow> Inl e
                                 | Inr s \<Rightarrow> Inr (d2\<lparr>e_date := Some s\<rparr>))
                           else Inr d2) of
                       Inl e \<Rightarrow> Inl e
                     | Inr d3 \<Rightarrow> header_loop d3 headers))))"

text \<open>The body of the \<^verbatim>\<open>for\<close> loop up to \<^verbatim>\<open>emails.append\<close>: one message hydrated.\<close>

definition has_body_of :: "raw_message \<Rightarrow> bool" where
  "has_body_of msg =
     (strip (case msg_snippet msg of None \<Rightarrow> [] | Some s \<Rightarrow> s) \<noteq> [])"

definition hydrate_message ::
  "(nat \<Rightarrow> string \<Rightarrow> exn + raw_message) \<Rightarrow> nat \<Rightarrow> message_ref \<Rightarrow> exn + email" where
  "hydrate_message get i message =
     (case message of
        None \<Rightarrow> Inl (KeyError ''id'')
      | Some mid \<Rightarrow>
          (case get i mid of
             Inl e \<Rightarrow> Inl e
           | Inr msg \<Rightarrow>
               (case msg_id msg of
                  None \<Rightarrow> Inl (KeyError ''id'')
                | Some the_id \<Rightarrow>
                    (case msg_threadId msg of
                       None \<Rightarrow> Inl (KeyError ''threadId'')
                     | Some the_thread \<Rightarrow>
                         (case msg_headers msg of
                            None \<Rightarrow> Inl (KeyError ''payload'')
                          | Some headers \<Rightarrow>
                              (case header_loop
                                      (empty_email\<lparr>e_id := Some the_id,
                                         e_threadId := Some the_thread\<rparr>) headers of
                                 Inl e \<Rightarrow> Inl e
                               | Inr d \<Rightarrow>
                                   Inr (d\<lparr>e_has_body := Some (has_body_of msg),
                                          e_body := Some []\<rparr>)))))))"

text \<open>
  The loop \<^verbatim>\<open>for i, message in enumerate(all_messages)\<close>, from position \<open>i\<close> on, with the
  output and the records accumulated so far. \<^verbatim>\<open>(i + 1) % batch_size\<close> raises when
  \<open>batch_size\<close> is zero.
\<close>

fun hydrate_loop ::
  "(nat \<Rightarrow> string \<Rightarrow> exn + raw_message) \<Rightarrow> int \<Rightarrow> nat \<Rightarrow> nat \<Rightarrow> message_ref list
     \<Rightarrow> event list \<Rightarrow> email list \<Rightarrow> event list \<times> (exn + email list)" where
  "hydrate_loop get batch_size total_messages i [] out emails = (out, Inr emails)"
| "hydrate_loop get batch_size total_messages i (message # rest) out emails =
     (let out1 = (if i mod 10 = 0 then out @ [ProcessingEmail (i + 1) total_messages] else out)
      in case hydrate_message get i message of
           Inl e \<Rightarrow> (out1, Inl e)
         | Inr email_data \<Rightarrow>
             (let emails1 = emails @ [email_data]
              in if batch_size = 0 then (out1, Inl ZeroDivisionError)
                 else if (int i + 1) mod batch_size = 0 \<and> int i < int total_messages - 1
                 then hydrate_loop get batch_size total_messages (i + 1) rest
                        (out1 @ [Pausing, Sleep 1]) emails1
                 else hydrate_loop get batch_size total_messages (i + 1) rest out1 emails1))"

text \<open>The \<^verbatim>\<open>try\<close> block of \<^verbatim>\<open>get_all_unread_emails\<close>, and the function with its handler.\<close>

definition initial_fetch_state :: "int \<Rightarrow> fetch_state" where
  "initial_fetch_state total_count =
     \<lparr>printed = [TotalUnread total_count], all_messages = [], next_page_token = None,
      page_count = 0\<rparr>"

definition fetch_try :: "service \<Rightarrow> int \<Rightarrow> (event list \<times> (exn + email list)) option" where
  "fetch_try svc batch_size =
     (case get_unread_email_count svc of
        Inl e \<Rightarrow> Some ([], Inl e)
      | Inr total_count \<Rightarrow>
          (case fetch_pages total_count (list_pages svc) (initial_fetch_state total_count) of
             None \<Rightarrow> None
           | Some (st, Some e) \<Rightarrow> Some (printed st, Inl e)
           | Some (st, None) \<Rightarrow>
               if all_messages st = [] then Some (printed st @ [NoUnread], Inr [])
               else
                 let total_messages = length (all_messages st)
                 in Some (hydrate_loop (get_metadata svc) batch_size total_messages 0
                            (all_messages st) (printed st @ [Processing total_messages]) [])))"

definition get_all_unread_emails :: "service \<Rightarrow> int \<Rightarrow> (event list \<times> email list) option" where
  "get_all_unread_emails svc batch_size =
     (case fetch_try svc batch_size of
        None \<Rightarrow> None
      | Some (out, Inl error) \<Rightarrow> Some (out @ [ErrorOccurred error], [])
      | Some (out, Inr emails) \<Rightarrow> Some (out, emails))"

section \<open>Suggesting categories\<close>

text \<open>
  \<^verbatim>\<open>suggest_categories\<close> calls a vectorizer, a clustering and \<^verbatim>\<open>argsort\<close>, none of which
  is code of the module; they are parameters. \<open>fit_transform\<close> is
  \<^verbatim>\<open>TfidfVectorizer(max_features=100, stop_words='english', min_df=1, max_df=0.9)\<close>
  fitted on the documents: it raises, or gives the document matrix (of a type \<open>'x\<close>
  the module never looks into) and the feature names. \<open>kmeans_fit n seed X\<close> is
  \<^verbatim>\<open>KMeans(n_clusters=n, random_state=seed).fit(X)\<close>: it raises, or gives
  \<^verbatim>\<open>labels_\<close> and \<^verbatim>\<open>cluster_centers_\<close>, the latter one row of weights (of a linearly
  ordered type \<open>'w\<close>) per cluster. \<open>argsort\<close> gives the indices of a row in ascending
  order of weight.
\<close>

record ('x, 'w) library =
  fit_transform :: "string list \<Rightarrow> exn + ('x \<times> string list)"
  kmeans_fit :: "int \<Rightarrow> nat \<Rightarrow> 'x \<Rightarrow> exn + (nat list \<times> 'w list list)"
  argsort :: "'w list \<Rightarrow> nat list"

text \<open>\<^verbatim>\<open>str\<close> of a natural number and of a truth value, and \<^verbatim>\<open>sep.join\<close>.\<close>

fun str_nat :: "nat \<Rightarrow> string" where
  "str_nat n =
     (if n < 10 then [''0123456789'' ! n]
      else str_nat (n div 10) @ [''0123456789'' ! (n mod 10)])"

declare str_nat.simps [simp del]


fun join :: "string \<Rightarrow> string list \<Rightarrow> string" where
  "join sep [] = []"
| "join sep [x] = x"
| "join sep (x # y # ys) = x @ sep @ join sep (y # ys)"

text \<open>
  Lines 183 and 184: the number of clusters asked for, given the number of documents.
  \<^verbatim>\<open>//\<close> is floor division; the document count is not negative.
\<close>

definition effective_num_clusters :: "nat \<Rightarrow> int \<Rightarrow> int" where
  "effective_num_clusters n_documents num_clusters =
     (if int n_documents < num_clusters then max 2 (int n_documents div 2)
      else num_clusters)"

text \<open>
  The body of the loop over the clusters. \<^verbatim>\<open>[-3:]\<close> keeps the last three entries (all
  of them when there are fewer), \<^verbatim>\<open>[::-1]\<close> reverses.
\<close>

definition top_indices :: "('w list \<Rightarrow> nat list) \<Rightarrow> 'w list \<Rightarrow> nat list" where
  "top_indices sorter row = rev (drop (length (sorter row) - 3) (sorter row))"

definition category_name ::
  "('w list \<Rightarrow> nat list) \<Rightarrow> string list \<Rightarrow> 'w list \<Rightarrow> nat \<Rightarrow> string" where
  "category_name sorter feature_names row i =
     (let top_words = map (\<lambda>idx. feature_names ! idx)
                        (filter (\<lambda>idx. idx < length feature_names) (top_indices sorter row))
      in if top_words = [] then ''Category '' @ str_nat (i + 1)
         else ''Category '' @ str_nat (i + 1) @ '': '' @ join '', '' top_words)"

text \<open>
  The loop \<^verbatim>\<open>for i in range(num_clusters)\<close>, over the cluster indices still to come;
  \<^verbatim>\<open>cluster_centers[i]\<close> raises when there is no such row.
\<close>

fun categories_loop ::
  "('w list \<Rightarrow> nat list) \<Rightarrow> string list \<Rightarrow> 'w list list \<Rightarrow> nat list \<Rightarrow> string list
     \<Rightarrow> exn + string list" where
  "categories_loop sorter feature_names cluster_centers [] categories = Inr categories"
| "categories_loop sorter feature_names cluster_centers (i # rest) categories =
     (if length cluster_centers \<le> i then Inl IndexError
      else categories_loop sorter feature_names cluster_centers rest
             (categories @ [category_name sorter feature_names (cluster_centers ! i) i]))"

text \<open>
  The loop \<^verbatim>\<open>for i, email in enumerate(emails)\<close>, from position \<open>i\<close> on: both
  \<^verbatim>\<open>clusters[i]\<close> and \<^verbatim>\<open>categories[..]\<close> raise out of range. The records are changed in
  place, which is of no account after an exception: the handler then sets every
  record's category again.
\<close>

fun assign_loop :: "string list \<Rightarrow> nat list \<Rightarrow> nat \<Rightarrow> email list \<Rightarrow> exn + email list" where
  "assign_loop categories clusters i [] = Inr []"
| "assign_loop categories clusters i (email # rest) =
     (if length clusters \<le> i then Inl IndexError
      else if length categories \<le> clusters ! i then Inl IndexError
      else
        (case assign_loop categories clusters (i + 1) rest of
           Inl e \<Rightarrow> Inl e
         | Inr rest' \<Rightarrow> Inr (email\<lparr>e_category := Some (categories ! (clusters ! i))\<rparr> # rest')))"

text \<open>The \<^verbatim>\<open>try\<close> block of \<^verbatim>\<open>suggest_categories\<close>; the seed is the constant 42.\<close>

definition categorize_try ::
  "('x, 'w) library \<Rightarrow> email list \<Rightarrow> string list \<Rightarrow> int \<Rightarrow> exn + email list" where
  "categorize_try lib emails documents num_clusters =
     (case fit_transform lib documents of
        Inl e \<Rightarrow> Inl e
      | Inr (X, feature_names) \<Rightarrow>
          (case kmeans_fit lib num_clusters 42 X of
             Inl e \<Rightarrow> Inl e
           | Inr (clusters, cluster_centers) \<Rightarrow>
               (case categories_loop (argsort lib) feature_names cluster_centers
                       [0..<nat num_clusters] [] of
                  Inl e \<Rightarrow> Inl e
                | Inr categories \<Rightarrow> assign_loop categories clusters 0 emails)))"

definition documents_of :: "email list \<Rightarrow> string list" where
  "documents_of emails =
     map (\<lambda>email. case e_subject email of None \<Rightarrow> [] | Some subject \<Rightarrow> subject) emails"

definition uncategorized :: "email list \<Rightarrow> email list" where
  "uncategorized emails = map (\<lambda>email. email\<lparr>e_category := Some ''Uncategorized''\<rparr>) emails"

definition suggest_categories ::
  "('x, 'w) library \<Rightarrow> email list \<Rightarrow> int \<Rightarrow> event list \<times> email list" where
  "suggest_categories lib emails num_clusters =
     (if emails = [] then ([], [])
      else
        let documents = documents_of emails;
            num_clusters1 = effective_num_clusters (length documents) num_clusters
        in case categorize_try lib emails documents num_clusters1 of
             Inr categorized \<Rightarrow> ([], categorized)
           | Inl e \<Rightarrow> ([CategorizationError e], uncategorized emails))"

section \<open>Saving the categories\<close>









section \<open>Notions used to state the properties\<close>

text \<open>
  The provider's answers to the page requests when each request carries the token of
  the answer before it, the identifiers of an answer, and the condition under which
  the pagination loop leaves at the \<open>i\<close>-th answer, \<open>held\<close> identifiers having been
  accumulated before the first.
\<close>

definition page_ids :: "exn + list_response \<Rightarrow> message_ref list" where
  "page_ids a =
     (case a of
        Inl e \<Rightarrow> []
      | Inr r \<Rightarrow> (case messages r of None \<Rightarrow> [] | Some ms \<Rightarrow> ms))"

fun answers ::
  "(string option \<Rightarrow> exn + list_response) list \<Rightarrow> string option
     \<Rightarrow> (exn + list_response) list" where
  "answers [] token = []"
| "answers (page # pages) token =
     (case page token of
        Inl e \<Rightarrow> Inl e # answers pages token
      | Inr r \<Rightarrow> Inr r # answers pages (nextPageToken r))"

definition stops_at :: "int \<Rightarrow> nat \<Rightarrow> (exn + list_response) list \<Rightarrow> nat \<Rightarrow> bool" where
  "stops_at total_count held rs i =
     (case rs ! i of
        Inl e \<Rightarrow> True
      | Inr r \<Rightarrow>
          page_ids (Inr r) = [] \<or> \<not> truthy (nextPageToken r) \<or>
          safety_margin_reached (held + length (concat (map page_ids (take (Suc i) rs))))
            total_count \<noteq> Inr False)"

text \<open>The number of page requests the loop makes: \<^verbatim>\<open>page_count\<close> when it is left.\<close>

definition pages_requested ::
  "int \<Rightarrow> (string option \<Rightarrow> exn + list_response) list \<Rightarrow> nat option" where
  "pages_requested total_count pages =
     map_option (\<lambda>(st, x). page_count st)
       (fetch_pages total_count pages (initial_fetch_state total_count))"

text \<open>
  The stopping rule in the words of the specification: no continuation token, or an
  accumulated count that exceeds the estimate by more than ten percent.
\<close>

definition spec_stops_at :: "int \<Rightarrow> (exn + list_response) list \<Rightarrow> nat \<Rightarrow> bool" where
  "spec_stops_at total_count rs i =
     (case rs ! i of
        Inl e \<Rightarrow> True
      | Inr r \<Rightarrow>
          nextPageToken r = None \<or>
          11 * total_count < 10 * int (length (concat (map page_ids (take (Suc i) rs)))))"

section \<open>Providers, libraries and records for concrete runs\<close>

text \<open>
  A page request answered with a fixed response, and a response with \<open>n\<close> listed
  messages and a given continuation token.
\<close>

definition answering :: "list_response \<Rightarrow> string option \<Rightarrow> exn + list_response" where
  "answering r token = Inr r"

definition listing :: "message_ref list \<Rightarrow> string option \<Rightarrow> list_response" where
  "listing ids token =
     \<lparr>resultSizeEstimate = None, messages = Some ids, nextPageToken = token\<rparr>"

definition page_of :: "nat \<Rightarrow> string option \<Rightarrow> list_response" where
  "page_of n token = listing (replicate n (Some ''m'')) token"

text \<open>
  A message with no headers and a given preview, a provider that serves one message for
  every identifier, one whose metadata requests fail from a given position on, and a
  service that lists the given identifiers on one page.
\<close>

definition message_with_snippet :: "string \<Rightarrow> raw_message" where
  "message_with_snippet s =
     \<lparr>msg_id = Some ''m'', msg_threadId = Some ''t'', msg_headers = Some [],
      msg_snippet = Some s\<rparr>"

definition serving :: "raw_message \<Rightarrow> nat \<Rightarrow> string \<Rightarrow> exn + raw_message" where
  "serving msg i mid = Inr msg"

definition failing_from ::
  "nat \<Rightarrow> raw_message \<Rightarrow> nat \<Rightarrow> string \<Rightarrow> exn + raw_message" where
  "failing_from n msg i mid = (if i < n then Inr msg else Inl (ProviderError ''quota''))"

definition one_page_service ::
  "message_ref list \<Rightarrow> (nat \<Rightarrow> string \<Rightarrow> exn + raw_message) \<Rightarrow> service" where
  "one_page_service ids get =
     \<lparr>list_estimate = Inr (listing [] None),
      list_pages = [answering (listing ids None)],
      get_metadata = get\<rparr>"

text \<open>
  An \<^verbatim>\<open>argsort\<close> that leaves equal weights in index order (a stable sort), a library
  built from a fixed vectorizer result and a clustering that depends on the number of
  clusters only, a clustering that rejects a number of clusters below one and otherwise
  puts two documents into clusters 0 and 1, and one that always raises.
\<close>

definition stable_argsort :: "'w::linorder list \<Rightarrow> nat list" where
  "stable_argsort row = sort_key (\<lambda>i. row ! i) [0..<length row]"

definition library_of ::
  "exn + (unit \<times> string list) \<Rightarrow> (int \<Rightarrow> nat \<Rightarrow> exn + (nat list \<times> int list list))
     \<Rightarrow> (unit, int) library" where
  "library_of vectorized clustering =
     \<lparr>fit_transform = (\<lambda>documents. vectorized),
      kmeans_fit = (\<lambda>n seed X. clustering n seed),
      argsort = stable_argsort\<rparr>"

definition validating_kmeans :: "int \<Rightarrow> nat \<Rightarrow> exn + (nat list \<times> int list list)" where
  "validating_kmeans n seed =
     (if n < 1 then Inl (LibraryError ''n_clusters'')
      else Inr ([0, 1], [ [2, 0, 1], [0, 3, 3] ]))"

definition raising_kmeans :: "int \<Rightarrow> nat \<Rightarrow> exn + (nat list \<times> int list list)" where
  "raising_kmeans n seed = Inl (LibraryError ''fit'')"

text \<open>A clustering whose labels are \<open>labels\<close> at seed 42 and all 0 at any other seed.\<close>

definition seeded_kmeans :: "nat list \<Rightarrow> int \<Rightarrow> nat \<Rightarrow> exn + (nat list \<times> int list list)" where
  "seeded_kmeans labels n seed =
     (if seed = 42 then Inr (labels, [ [2, 0, 1], [0, 3, 3] ])
      else Inr ([0, 0], [ [2, 0, 1], [0, 3, 3] ]))"

text \<open>A clustering that raises at every seed other than 42.\<close>

definition at_seed_42_only ::
  "(int \<Rightarrow> nat \<Rightarrow> exn + (nat list \<times> int list list))
     \<Rightarrow> int \<Rightarrow> nat \<Rightarrow> exn + (nat list \<times> int list list)" where
  "at_seed_42_only clustering n seed =
     (if seed = 42 then clustering n seed else Inl (LibraryError ''seed''))"

definition record_with_subject :: "string \<Rightarrow> email" where
  "record_with_subject s = empty_email\<lparr>e_subject := Some s\<rparr>"


text \<open>
  The label of a cluster in the words of the specification: the three terms of greatest
  weight, in descending order of weight, terms of equal weight in feature index order.
\<close>

definition spec_top_indices :: "'w::linorder list \<Rightarrow> nat list" where
  "spec_top_indices row = take 3 (rev (sort_key (\<lambda>i. row ! i) (rev [0..<length row])))"

definition spec_category_name :: "string list \<Rightarrow> 'w::linorder list \<Rightarrow> nat \<Rightarrow> string" where
  "spec_category_name feature_names row i =
     (let top_words = map (\<lambda>idx. feature_names ! idx) (spec_top_indices row)
      in if top_words = [] then ''Category '' @ str_nat (i + 1)
         else ''Category '' @ str_nat (i + 1) @ '': '' @ join '', '' top_words)"


section \<open>Properties\<close>

lemma strip_empty_iff: "strip s = [] \<longleftrightarrow> (\<forall>c\<in>set s. py_isspace c)"
proof -
  have "strip s = [] \<longleftrightarrow> dropWhile py_isspace (rev (dropWhile py_isspace s)) = []"
    by (simp add: strip_def)
  also have "\<dots> \<longleftrightarrow> (\<forall>c\<in>set (dropWhile py_isspace s). py_isspace c)"
    by (simp add: dropWhile_eq_Nil_conv)
  also have "\<dots> \<longleftrightarrow> (\<forall>c\<in>set s. py_isspace c)"
  proof
    assume a: "\<forall>c\<in>set (dropWhile py_isspace s). py_isspace c"
    show "\<forall>c\<in>set s. py_isspace c"
    proof
      fix c assume "c \<in> set s"
      then have "c \<in> set (takeWhile py_isspace s) \<or> c \<in> set (dropWhile py_isspace s)"
        by (metis Un_iff set_append takeWhile_dropWhile_id)
      then show "py_isspace c"
        using a by (auto dest: set_takeWhileD)
    qed
  next
    assume "\<forall>c\<in>set s. py_isspace c"
    then show "\<forall>c\<in>set (dropWhile py_isspace s). py_isspace c"
      by (auto dest: set_dropWhileD)
  qed
  finally show ?thesis .
qed


subsection \<open>The pagination loop\<close>

lemma fetch_pages_count:
  "fetch_pages t pages st = Some (st', x) \<Longrightarrow> page_count st < page_count st'"
proof (induction pages arbitrary: st)
  case Nil
  then show ?case by simp
next
  case (Cons page pages)
  then show ?case
    by (fastforce simp: Let_def split: sum.splits if_splits)
qed

lemma fetch_pages_stop_now:
  assumes "stops_at t (length (all_messages st)) (answers (page # pages) (next_page_token st)) 0"
  shows "\<exists>st' x. fetch_pages t (page # pages) st = Some (st', x) \<and>
           page_count st' = Suc (page_count st)"
  using assms
  by (auto simp: stops_at_def page_ids_def Let_def split: sum.splits option.splits)

lemma fetch_pages_go_on:
  assumes "\<not> stops_at t (length (all_messages st)) (answers (page # pages) (next_page_token st)) 0"
  shows "\<exists>r st5. page (next_page_token st) = Inr r \<and>
           fetch_pages t (page # pages) st = fetch_pages t pages st5 \<and>
           page_count st5 = Suc (page_count st) \<and>
           all_messages st5 = all_messages st @ page_ids (Inr r) \<and>
           next_page_token st5 = nextPageToken r"
  using assms
  by (auto simp: stops_at_def page_ids_def Let_def split: sum.splits option.splits)

lemma stops_at_Suc:
  "stops_at t held (Inr r # rs) (Suc i) = stops_at t (held + length (page_ids (Inr r))) rs i"
  by (simp add: stops_at_def add.assoc split: sum.splits)

lemma fetch_pages_stops_general:
  "(\<exists>st' x. fetch_pages t pages st = Some (st', x) \<and> page_count st' = page_count st + Suc n)
   \<longleftrightarrow> (n < length pages \<and>
        stops_at t (length (all_messages st)) (answers pages (next_page_token st)) n \<and>
        (\<forall>i<n. \<not> stops_at t (length (all_messages st)) (answers pages (next_page_token st)) i))"
proof (induction pages arbitrary: st n)
  case Nil
  then show ?case by simp
next
  case (Cons page pages)
  let ?rs = "answers (page # pages) (next_page_token st)"
  let ?h = "length (all_messages st)"
  show ?case
  proof (cases "stops_at t ?h ?rs 0")
    case True
    from fetch_pages_stop_now [OF True] obtain st' x where
      r: "fetch_pages t (page # pages) st = Some (st', x)" "page_count st' = Suc (page_count st)"
      by blast
    show ?thesis
    proof (cases n)
      case 0
      with r True show ?thesis by simp
    next
      case (Suc m)
      with r True show ?thesis by auto
    qed
  next
    case False
    from fetch_pages_go_on [OF False] obtain r st5 where
      s: "page (next_page_token st) = Inr r"
         "fetch_pages t (page # pages) st = fetch_pages t pages st5"
         "page_count st5 = Suc (page_count st)"
         "all_messages st5 = all_messages st @ page_ids (Inr r)"
         "next_page_token st5 = nextPageToken r"
      by blast
    have rs: "?rs = Inr r # answers pages (next_page_token st5)"
      using s by simp
    show ?thesis
    proof (cases n)
      case 0
      have "\<not> (\<exists>st' x. fetch_pages t pages st5 = Some (st', x) \<and>
                 page_count st' = Suc (page_count st))"
        using fetch_pages_count [of t pages st5] s(3) by fastforce
      with 0 False s(2) show ?thesis by simp
    next
      case (Suc m)
      have "(\<exists>st' x. fetch_pages t (page # pages) st = Some (st', x) \<and>
                page_count st' = page_count st + Suc n)
            \<longleftrightarrow> (\<exists>st' x. fetch_pages t pages st5 = Some (st', x) \<and>
                page_count st' = page_count st5 + Suc m)"
        using s(2,3) Suc by simp
      also have "\<dots> \<longleftrightarrow> (m < length pages \<and>
          stops_at t (length (all_messages st5)) (answers pages (next_page_token st5)) m \<and>
          (\<forall>i<m. \<not> stops_at t (length (all_messages st5))
                      (answers pages (next_page_token st5)) i))"
        by (rule Cons.IH)
      also have "\<dots> \<longleftrightarrow> (n < length (page # pages) \<and> stops_at t ?h ?rs n \<and>
          (\<forall>i<n. \<not> stops_at t ?h ?rs i))"
      proof -
        have a: "\<And>i. stops_at t ?h ?rs (Suc i) =
                  stops_at t (length (all_messages st5)) (answers pages (next_page_token st5)) i"
          unfolding rs stops_at_Suc using s(4) by simp
        have b: "(\<forall>i<Suc m. \<not> stops_at t ?h ?rs i) \<longleftrightarrow> (\<forall>i<m. \<not> stops_at t ?h ?rs (Suc i))"
          using False by (metis less_Suc_eq_0_disj)
        show ?thesis unfolding Suc b a by simp
      qed
      finally show ?thesis .
    qed
  qed
qed

text \<open>
  Claim C1, as amended. For every estimate and every sequence of provider answers, the
  pagination loop makes exactly \<open>n + 1\<close> page requests if and only if the answer to
  request \<open>n\<close> is the first at which it leaves: the first that raises, or lists no
  message identifier, or carries no continuation token (none, or the empty string), or
  after which \<^verbatim>\<open>len(all_messages) >= total_count * 1.1\<close> holds in double precision (or
  raises). Until then each request carries the token of the answer before it.
\<close>

theorem pagination_stops_exactly:
  "pages_requested total_count pages = Some (Suc n) \<longleftrightarrow>
     (n < length pages \<and>
      stops_at total_count 0 (answers pages None) n \<and>
      (\<forall>i<n. \<not> stops_at total_count 0 (answers pages None) i))"
proof -
  let ?st = "initial_fetch_state total_count"
  have "pages_requested total_count pages = Some (Suc n) \<longleftrightarrow>
          (\<exists>st' x. fetch_pages total_count pages ?st = Some (st', x) \<and>
             page_count st' = page_count ?st + Suc n)"
    by (auto simp: pages_requested_def initial_fetch_state_def)
  also have "\<dots> \<longleftrightarrow> (n < length pages \<and>
      stops_at total_count (length (all_messages ?st)) (answers pages (next_page_token ?st)) n \<and>
      (\<forall>i<n. \<not> stops_at total_count (length (all_messages ?st))
                  (answers pages (next_page_token ?st)) i))"
    by (rule fetch_pages_stops_general)
  also have "\<dots> \<longleftrightarrow> (n < length pages \<and>
      stops_at total_count 0 (answers pages None) n \<and>
      (\<forall>i<n. \<not> stops_at total_count 0 (answers pages None) i))"
    by (simp add: initial_fetch_state_def)
  finally show ?thesis .
qed

lemma margin_11_10: "safety_margin_reached 11 10 = Inr True"
  by (simp add: safety_margin_reached_def round53_def bit_length.simps float_1_1_def Let_def)

lemma margin_3_3: "safety_margin_reached 3 3 = Inr False"
  by (simp add: safety_margin_reached_def round53_def bit_length.simps float_1_1_def Let_def)

text \<open>
  \<^verbatim>\<open>100 * 1.1\<close> is the double just above 110, so 110 identifiers do not reach the margin of
  an estimate of 100.
\<close>

lemma margin_110_100: "safety_margin_reached 110 100 = Inr False"
  by (simp add: safety_margin_reached_def round53_def bit_length.simps float_1_1_def Let_def)

lemmas run_simps =
  pages_requested_def initial_fetch_state_def answering_def page_of_def listing_def Let_def
  stops_at_def spec_stops_at_def page_ids_def

text \<open>
  With an estimate of 3, a first page of 3 identifiers with a token does not end the
  loop; the second page, with no token, does.
\<close>

theorem pagination_stops_exactly_witness:
  "pages_requested 3 [answering (page_of 3 (Some ''next'')), answering (page_of 1 None)]
     = Some (Suc 1)"
proof -
  let ?pages = "[answering (page_of 3 (Some ''next'')), answering (page_of 1 None)]"
  have a: "stops_at 3 0 (answers ?pages None) 1"
    by (simp add: run_simps)
  have b: "\<not> stops_at 3 0 (answers ?pages None) 0"
    by (simp add: run_simps margin_3_3)
  have c: "\<forall>i<1. \<not> stops_at 3 0 (answers ?pages None) i"
    using b by simp
  show ?thesis
    using pagination_stops_exactly [of 3 ?pages 1] a c by simp
qed

text \<open>
  Claim C1, as stated, fails. A page with a continuation token and no identifiers ends
  the loop although the page carries a token and the count, 0, does not exceed the
  estimate, 5. A page with a token that brings the count to 11 ends the loop at an
  estimate of 10, although 11 exceeds 10 by ten percent and no more.
\<close>

theorem pagination_spec_counterexample:
  "pages_requested 5 [answering (page_of 0 (Some ''next'')), answering (page_of 1 None)] = Some 1
   \<and> \<not> spec_stops_at 5
         (answers [answering (page_of 0 (Some ''next'')), answering (page_of 1 None)] None) 0
   \<and> pages_requested 10 [answering (page_of 11 (Some ''next'')), answering (page_of 1 None)]
       = Some 1
   \<and> \<not> spec_stops_at 10
         (answers [answering (page_of 11 (Some ''next'')), answering (page_of 1 None)] None) 0"
proof -
  have a: "pages_requested 5
             [answering (page_of 0 (Some ''next'')), answering (page_of 1 None)] = Some 1"
    by (simp add: run_simps)
  have b: "\<not> spec_stops_at 5
             (answers [answering (page_of 0 (Some ''next'')), answering (page_of 1 None)] None) 0"
    by (simp add: run_simps)
  have c: "pages_requested 10
             [answering (page_of 11 (Some ''next'')), answering (page_of 1 None)] = Some 1"
    by (simp add: run_simps margin_11_10)
  have d: "\<not> spec_stops_at 10
             (answers [answering (page_of 11 (Some ''next'')), answering (page_of 1 None)] None) 0"
    by (simp add: run_simps)
  from a b c d show ?thesis by blast
qed

subsection \<open>Hydration\<close>

lemma has_body_of_iff:
  "has_body_of msg \<longleftrightarrow>
     (\<exists>c\<in>set (case msg_snippet msg of None \<Rightarrow> [] | Some s \<Rightarrow> s). \<not> py_isspace c)"
  by (simp add: has_body_of_def strip_empty_iff)

lemma header_loop_id:
  "header_loop d headers = Inr d' \<Longrightarrow> e_id d' = e_id d"
proof (induction headers arbitrary: d)
  case Nil
  then show ?case by simp
next
  case (Cons h headers)
  obtain name v where h: "h = (name, v)"
    by (cases h)
  from Cons.prems h show ?case
    by (auto simp: header_value_def split: option.splits sum.splits if_splits dest!: Cons.IH)
qed

lemma hydrate_message_flags:
  assumes "hydrate_message get i message = Inr m"
  shows "\<exists>mid msg. message = Some mid \<and> get i mid = Inr msg \<and> e_id m = msg_id msg \<and>
           e_has_body m = Some (has_body_of msg) \<and> e_body m = Some []"
  using assms
  by (auto simp: hydrate_message_def dest!: header_loop_id split: option.splits sum.splits)

lemma hydrate_loop_ok:
  "hydrate_loop get b tot i ms out emails = (out', Inr res) \<Longrightarrow>
     \<exists>new. res = emails @ new \<and> length new = length ms \<and>
       (\<forall>k<length ms. hydrate_message get (i + k) (ms ! k) = Inr (new ! k))"
proof (induction ms arbitrary: i out emails)
  case Nil
  then show ?case by simp
next
  case (Cons m ms)
  from Cons.prems obtain d out1 where
    d: "hydrate_message get i m = Inr d" and
    r: "hydrate_loop get b tot (i + 1) ms out1 (emails @ [d]) = (out', Inr res)"
    by (auto simp: Let_def split: sum.splits if_splits)
  from Cons.IH [OF r] obtain new where
    n: "res = (emails @ [d]) @ new" "length new = length ms"
       "\<forall>k<length ms. hydrate_message get (i + 1 + k) (ms ! k) = Inr (new ! k)"
    by blast
  have "\<forall>k<length (m # ms). hydrate_message get (i + k) ((m # ms) ! k) = Inr ((d # new) ! k)"
  proof (intro allI impI)
    fix k assume k: "k < length (m # ms)"
    show "hydrate_message get (i + k) ((m # ms) ! k) = Inr ((d # new) ! k)"
    proof (cases k)
      case 0
      with d show ?thesis by simp
    next
      case (Suc j)
      with k n(3) show ?thesis by simp
    qed
  qed
  with n(1,2) show ?case
    by (intro exI [of _ "d # new"]) simp
qed



lemma fetch_try_records:
  assumes a: "fetch_try svc b = Some (out, Inr emails)" and ne: "emails \<noteq> []"
  shows "\<exists>t (st::fetch_state).
           get_unread_email_count svc = Inr t \<and>
           fetch_pages t (list_pages svc) (initial_fetch_state t) = Some (st, None) \<and>
           hydrate_loop (get_metadata svc) b (length (all_messages st)) 0 (all_messages st)
             (printed st @ [Processing (length (all_messages st))]) [] = (out, Inr emails)"
proof -
  obtain t where t: "get_unread_email_count svc = Inr t"
    using a by (cases "get_unread_email_count svc") (auto simp: fetch_try_def)
  obtain st x where st: "fetch_pages t (list_pages svc) (initial_fetch_state t) = Some (st, x)"
    using a t
    by (cases "fetch_pages t (list_pages svc) (initial_fetch_state t)")
       (auto simp: fetch_try_def)
  have x: "x = None"
    using a t st by (cases x) (auto simp: fetch_try_def)
  have "hydrate_loop (get_metadata svc) b (length (all_messages st)) 0 (all_messages st)
          (printed st @ [Processing (length (all_messages st))]) [] = (out, Inr emails)"
    using a t st x ne by (auto simp: fetch_try_def Let_def split: if_splits)
  with t st x show ?thesis
    by blast
qed

subsection \<open>The failure policy of the fetch\<close>


lemmas fetch_simps =
  get_all_unread_emails_def fetch_try_def get_unread_email_count_def one_page_service_def
  initial_fetch_state_def answering_def listing_def Let_def hydrate_message_def
  message_with_snippet_def serving_def failing_from_def has_body_of_def strip_def
  py_isspace_def empty_email_def


subsection \<open>The flags of a hydrated record\<close>

text \<open>
  Claim C9, as amended. The fetch returns one record for each message reference the
  pagination listed, in the same order. The record at position \<open>k\<close> was built from the
  message the provider returned for the \<open>k\<close>-th reference: it carries the identifier of
  that message, its body is the empty string, and its \<^verbatim>\<open>has_body\<close> flag is true exactly
  when the preview of that message contains a character that is not white space (a
  missing preview counts as empty).
\<close>

theorem hydrated_record_flags:
  assumes "get_all_unread_emails svc batch_size = Some (out, emails)" "k < length emails"
  shows "\<exists>t (st::fetch_state) mid msg.
           get_unread_email_count svc = Inr t \<and>
           fetch_pages t (list_pages svc) (initial_fetch_state t) = Some (st, None) \<and>
           length emails = length (all_messages st) \<and>
           all_messages st ! k = Some mid \<and>
           get_metadata svc k mid = Inr msg \<and>
           e_id (emails ! k) = msg_id msg \<and>
           e_body (emails ! k) = Some [] \<and>
           e_has_body (emails ! k) =
             Some (\<exists>c\<in>set (case msg_snippet msg of None \<Rightarrow> [] | Some s \<Rightarrow> s).
                     \<not> py_isspace c)"
proof -
  from assms(2) have ne: "emails \<noteq> []"
    by auto
  from assms(1) have "fetch_try svc batch_size = Some (out, Inr emails)"
    using ne
    by (cases "fetch_try svc batch_size")
       (auto simp: get_all_unread_emails_def split: sum.splits)
  from fetch_try_records [OF this ne] obtain t and st :: fetch_state where
    t: "get_unread_email_count svc = Inr t" and
    st: "fetch_pages t (list_pages svc) (initial_fetch_state t) = Some (st, None)" and
    l: "hydrate_loop (get_metadata svc) batch_size (length (all_messages st)) 0 (all_messages st)
          (printed st @ [Processing (length (all_messages st))]) [] = (out, Inr emails)"
    by blast
  from hydrate_loop_ok [OF l] have
    h: "length emails = length (all_messages st)"
       "\<forall>k<length (all_messages st).
          hydrate_message (get_metadata svc) k (all_messages st ! k) = Inr (emails ! k)"
    by auto
  with assms(2) have
    "hydrate_message (get_metadata svc) k (all_messages st ! k) = Inr (emails ! k)"
    by simp
  from hydrate_message_flags [OF this] obtain mid msg where
    "all_messages st ! k = Some mid" "get_metadata svc k mid = Inr msg"
    "e_id (emails ! k) = msg_id msg"
    "e_has_body (emails ! k) = Some (has_body_of msg)" "e_body (emails ! k) = Some []"
    by blast
  with t st h(1) show ?thesis
    by (auto simp: has_body_of_iff)
qed

theorem hydrated_record_flags_witness:
  "\<exists>t (st::fetch_state) mid msg.
     get_unread_email_count (one_page_service [Some ''a''] (serving (message_with_snippet ''hi'')))
       = Inr t \<and>
     fetch_pages t
       (list_pages (one_page_service [Some ''a''] (serving (message_with_snippet ''hi''))))
       (initial_fetch_state t) = Some (st, None) \<and>
     length [empty_email\<lparr>e_id := Some ''m'', e_threadId := Some ''t'',
               e_has_body := Some True, e_body := Some []\<rparr>] = length (all_messages st) \<and>
     all_messages st ! 0 = Some mid \<and>
     get_metadata (one_page_service [Some ''a''] (serving (message_with_snippet ''hi''))) 0 mid
       = Inr msg \<and>
     e_id ([empty_email\<lparr>e_id := Some ''m'', e_threadId := Some ''t'',
               e_has_body := Some True, e_body := Some []\<rparr>] ! 0) = msg_id msg \<and>
     e_body ([empty_email\<lparr>e_id := Some ''m'', e_threadId := Some ''t'',
               e_has_body := Some True, e_body := Some []\<rparr>] ! 0) = Some [] \<and>
     e_has_body ([empty_email\<lparr>e_id := Some ''m'', e_threadId := Some ''t'',
               e_has_body := Some True, e_body := Some []\<rparr>] ! 0) =
       Some (\<exists>c\<in>set (case msg_snippet msg of None \<Rightarrow> [] | Some s \<Rightarrow> s).
               \<not> py_isspace c)"
proof -
  let ?svc = "one_page_service [Some ''a''] (serving (message_with_snippet ''hi''))"
  let ?m = "empty_email\<lparr>e_id := Some ''m'', e_threadId := Some ''t'',
              e_has_body := Some True, e_body := Some []\<rparr>"
  have a: "get_all_unread_emails ?svc 25 =
             Some ([TotalUnread 0, FetchingPage 1, FetchedIds 1 0, Processing 1,
                    ProcessingEmail 1 1], [?m])"
    by (simp add: fetch_simps)
  have b: "0 < length [?m]"
    by simp
  show ?thesis
    by (rule hydrated_record_flags [OF a b])
qed

text \<open>
  Claim C9, as stated, fails: a preview that is one space is not empty, and the flag
  is false.
\<close>

theorem has_body_spec_counterexample:
  "hydrate_message (serving (message_with_snippet '' '')) 0 (Some ''a'')
     = Inr (empty_email\<lparr>e_id := Some ''m'', e_threadId := Some ''t'',
              e_has_body := Some False, e_body := Some []\<rparr>)
   \<and> msg_snippet (message_with_snippet '' '') = Some '' ''
   \<and> '' '' \<noteq> []"
  by (simp add: fetch_simps)

subsection \<open>Suggesting categories\<close>

lemma categories_loop_result:
  "categories_loop s names centers is acc = Inr cats \<Longrightarrow>
     cats = acc @ map (\<lambda>i. category_name s names (centers ! i) i) is"
proof (induction "is" arbitrary: acc)
  case Nil
  then show ?case by simp
next
  case (Cons i rest)
  from Cons.prems have
    "categories_loop s names centers rest (acc @ [category_name s names (centers ! i) i])
       = Inr cats"
    by (simp split: if_splits)
  from Cons.IH [OF this] show ?case by simp
qed

lemma categories_loop_upt:
  assumes "categories_loop s names centers [0..<n] [] = Inr cats"
  shows "length cats = n" and "\<And>c. c < n \<Longrightarrow> cats ! c = category_name s names (centers ! c) c"
proof -
  from categories_loop_result [OF assms]
  have c: "cats = map (\<lambda>i. category_name s names (centers ! i) i) [0..<n]"
    by simp
  show "length cats = n"
    by (simp add: c)
  show "\<And>c. c < n \<Longrightarrow> cats ! c = category_name s names (centers ! c) c"
    by (simp add: c)
qed

lemma category_name_nonempty: "category_name s names row i \<noteq> []"
  by (simp add: category_name_def Let_def)

lemma assign_loop_result:
  "assign_loop cats clusters i emails = Inr res \<Longrightarrow>
     length res = length emails \<and>
     (\<forall>j<length emails. i + j < length clusters \<and> clusters ! (i + j) < length cats \<and>
        res ! j = (emails ! j)\<lparr>e_category := Some (cats ! (clusters ! (i + j)))\<rparr>)"
proof (induction emails arbitrary: i res)
  case Nil
  then show ?case by simp
next
  case (Cons email rest)
  from Cons.prems obtain rest' where
    a: "i < length clusters" "clusters ! i < length cats" and
    r: "assign_loop cats clusters (i + 1) rest = Inr rest'" and
    res: "res = email\<lparr>e_category := Some (cats ! (clusters ! i))\<rparr> # rest'"
    by (auto split: if_splits sum.splits)
  from Cons.IH [OF r] have
    ih: "length rest' = length rest"
        "\<forall>j<length rest. i + 1 + j < length clusters \<and> clusters ! (i + 1 + j) < length cats \<and>
           rest' ! j = (rest ! j)\<lparr>e_category := Some (cats ! (clusters ! (i + 1 + j)))\<rparr>"
    by auto
  have "\<forall>j<length (email # rest). i + j < length clusters \<and> clusters ! (i + j) < length cats \<and>
          res ! j = ((email # rest) ! j)\<lparr>e_category := Some (cats ! (clusters ! (i + j)))\<rparr>"
  proof (intro allI impI)
    fix j assume j: "j < length (email # rest)"
    show "i + j < length clusters \<and> clusters ! (i + j) < length cats \<and>
          res ! j = ((email # rest) ! j)\<lparr>e_category := Some (cats ! (clusters ! (i + j)))\<rparr>"
    proof (cases j)
      case 0
      with a res show ?thesis by simp
    next
      case (Suc j')
      with j ih(2) res show ?thesis by simp
    qed
  qed
  with ih(1) res show ?case by simp
qed

lemma categorize_try_success:
  assumes "categorize_try lib emails docs n = Inr result"
  shows "\<exists>X names clusters centers cats.
           fit_transform lib docs = Inr (X, names) \<and>
           kmeans_fit lib n 42 X = Inr (clusters, centers) \<and>
           categories_loop (argsort lib) names centers [0..<nat n] [] = Inr cats \<and>
           assign_loop cats clusters 0 emails = Inr result"
  using assms
  by (auto simp: categorize_try_def split: sum.splits prod.splits)

lemma length_documents_of [simp]: "length (documents_of emails) = length emails"
  by (simp add: documents_of_def)

lemma uncategorized_labels:
  assumes "emails \<noteq> []"
  shows "e_category ` set (uncategorized emails) = {Some ''Uncategorized''}"
  using assms by (cases emails) (auto simp: uncategorized_def image_iff)

lemma effective_num_clusters_pos: "1 \<le> k \<Longrightarrow> 1 \<le> effective_num_clusters n k"
  by (auto simp: effective_num_clusters_def le_max_iff_disj)

text \<open>
  Claim C2, as amended. For every non-empty list of records and every requested number
  of clusters, \<^verbatim>\<open>suggest_categories\<close> returns as many records as it was given, each with
  a non-empty category label, whether the clustering succeeded or the fallback ran; and
  when the requested number of clusters is at least one, the number of distinct labels
  is at most the effective number of clusters.
\<close>

theorem categories_assigned:
  assumes ne: "emails \<noteq> []"
    and run: "suggest_categories lib emails k = (out, result)"
  shows "length result = length emails \<and>
         (\<forall>m\<in>set result. \<exists>l. e_category m = Some l \<and> l \<noteq> []) \<and>
         (1 \<le> k \<longrightarrow>
            card (e_category ` set result) \<le> nat (effective_num_clusters (length emails) k))"
proof (cases "categorize_try lib emails (documents_of emails)
                (effective_num_clusters (length emails) k)")
  case (Inl e)
  with run ne have r: "result = uncategorized emails"
    by (simp add: suggest_categories_def Let_def)
  have "card (e_category ` set result) = 1"
    by (simp add: r uncategorized_labels [OF ne])
  moreover have "1 \<le> nat (effective_num_clusters (length emails) k)" if "1 \<le> k"
    using effective_num_clusters_pos [OF that, of "length emails"] by simp
  ultimately show ?thesis
    by (auto simp: r uncategorized_def)
next
  case (Inr categorized)
  with run ne have r: "result = categorized"
    by (simp add: suggest_categories_def Let_def)
  from categorize_try_success [OF Inr] obtain names clusters centers cats where
    loop: "categories_loop (argsort lib) names centers
             [0..<nat (effective_num_clusters (length emails) k)] [] = Inr cats" and
    assign: "assign_loop cats clusters 0 emails = Inr result"
    using r by blast
  note cats = categories_loop_upt [OF loop]
  from assign_loop_result [OF assign] have
    len: "length result = length emails" and
    each: "\<forall>j<length emails. clusters ! j < length cats \<and>
             result ! j = (emails ! j)\<lparr>e_category := Some (cats ! (clusters ! j))\<rparr>"
    by auto
  have label: "\<exists>c<length cats. e_category m = Some (cats ! c)" if "m \<in> set result" for m
  proof -
    from that obtain j where "j < length result" "result ! j = m"
      by (auto simp: in_set_conv_nth)
    with len each show ?thesis by auto
  qed
  have nonempty: "\<forall>m\<in>set result. \<exists>l. e_category m = Some l \<and> l \<noteq> []"
  proof
    fix m assume "m \<in> set result"
    from label [OF this] obtain c where c: "c < length cats" "e_category m = Some (cats ! c)"
      by blast
    with cats category_name_nonempty show "\<exists>l. e_category m = Some l \<and> l \<noteq> []"
      by simp
  qed
  have "e_category ` set result \<subseteq> Some ` set cats"
  proof
    fix x assume "x \<in> e_category ` set result"
    then obtain m where m: "m \<in> set result" "x = e_category m"
      by blast
    from label [OF m(1)] obtain c where "c < length cats" "e_category m = Some (cats ! c)"
      by blast
    with m(2) show "x \<in> Some ` set cats"
      by simp
  qed
  then have "card (e_category ` set result) \<le> card (Some ` set cats)"
    by (intro card_mono) auto
  also have "\<dots> \<le> card (set cats)"
    by (rule card_image_le) simp
  also have "\<dots> \<le> length cats"
    by (rule card_length)
  finally have "card (e_category ` set result) \<le> nat (effective_num_clusters (length emails) k)"
    using cats(1) by simp
  with len nonempty show ?thesis by simp
qed

lemmas categorize_simps =
  suggest_categories_def categorize_try_def library_of_def validating_kmeans_def
  raising_kmeans_def seeded_kmeans_def effective_num_clusters_def documents_of_def
  uncategorized_def record_with_subject_def empty_email_def category_name_def
  top_indices_def stable_argsort_def str_nat.simps upt_rec Let_def

lemma two_records_run:
  "suggest_categories (library_of (Inr ((), [''invoice'', ''team'', ''due''])) validating_kmeans)
     [record_with_subject ''Invoice due'', record_with_subject ''Team''] 5
   = ([], [(record_with_subject ''Invoice due'')
             \<lparr>e_category := Some ''Category 1: invoice, due, team''\<rparr>,
           (record_with_subject ''Team'')
             \<lparr>e_category := Some ''Category 2: due, team, invoice''\<rparr>])"
  by (simp add: categorize_simps)

theorem categories_assigned_witness:
  "card (e_category `
      set [(record_with_subject ''Invoice due'')
             \<lparr>e_category := Some ''Category 1: invoice, due, team''\<rparr>,
           (record_with_subject ''Team'')
             \<lparr>e_category := Some ''Category 2: due, team, invoice''\<rparr>])
     \<le> nat (effective_num_clusters
              (length [record_with_subject ''Invoice due'', record_with_subject ''Team'']) 5)"
proof -
  have ne: "[record_with_subject ''Invoice due'', record_with_subject ''Team''] \<noteq> []"
    by simp
  have k: "(1::int) \<le> 5"
    by simp
  from categories_assigned [OF ne two_records_run] k show ?thesis
    by blast
qed

text \<open>
  Claim C2, as stated, fails when zero clusters are requested: the clustering rejects the
  number, the fallback labels the one record, and one label is more than the effective
  number of clusters, which is zero.
\<close>

theorem categories_bound_counterexample:
  "suggest_categories (library_of (Inr ((), [''team''])) validating_kmeans)
     [record_with_subject ''Team''] 0
   = ([CategorizationError (LibraryError ''n_clusters'')],
      [(record_with_subject ''Team'')\<lparr>e_category := Some ''Uncategorized''\<rparr>])
   \<and> card (e_category ` set [(record_with_subject ''Team'')
                                \<lparr>e_category := Some ''Uncategorized''\<rparr>]) = 1
   \<and> nat (effective_num_clusters (length [record_with_subject ''Team'']) 0) = 0"
  by (simp add: categorize_simps)

lemma categorize_try_agree:
  assumes "fit_transform lib1 = fit_transform lib2"
    and "argsort lib1 = argsort lib2"
    and "\<And>X. kmeans_fit lib1 n 42 X = kmeans_fit lib2 n 42 X"
  shows "categorize_try lib1 emails documents n = categorize_try lib2 emails documents n"
  unfolding categorize_try_def assms(1) assms(2)
  by (simp add: assms(3) split: sum.splits prod.splits)

text \<open>
  Claim C3. For every non-empty list of records, if the vectorizer raises, or the
  clustering raises on the matrix the vectorizer returned, \<^verbatim>\<open>suggest_categories\<close> prints
  the error and returns the records it was given, in order, each with the category
  \<^verbatim>\<open>Uncategorized\<close> and nothing else changed: the fallback covers every record, and the
  exception does not leave the function.
\<close>

theorem clustering_failure_fallback:
  assumes "emails \<noteq> []"
    and "fit_transform lib (documents_of emails) = Inl e
         \<or> (\<exists>X names. fit_transform lib (documents_of emails) = Inr (X, names) \<and>
               kmeans_fit lib (effective_num_clusters (length emails) k) 42 X = Inl e)"
  shows "suggest_categories lib emails k =
           ([CategorizationError e],
            map (\<lambda>email. email\<lparr>e_category := Some ''Uncategorized''\<rparr>) emails)"
proof -
  from assms(2) have
    "categorize_try lib emails (documents_of emails) (effective_num_clusters (length emails) k)
       = Inl e"
    by (auto simp: categorize_try_def)
  with assms(1) show ?thesis
    by (simp add: suggest_categories_def uncategorized_def Let_def)
qed

theorem clustering_failure_fallback_witness:
  "suggest_categories (library_of (Inr ((), [''invoice'', ''team''])) raising_kmeans)
     [record_with_subject ''Invoice due'', record_with_subject ''Team''] 5
   = ([CategorizationError (LibraryError ''fit'')],
      map (\<lambda>email. email\<lparr>e_category := Some ''Uncategorized''\<rparr>)
        [record_with_subject ''Invoice due'', record_with_subject ''Team''])"
proof -
  let ?lib = "library_of (Inr ((), [''invoice'', ''team''])) raising_kmeans"
  let ?emails = "[record_with_subject ''Invoice due'', record_with_subject ''Team'']"
  have ne: "?emails \<noteq> []"
    by simp
  have "fit_transform ?lib (documents_of ?emails) = Inr ((), [''invoice'', ''team'']) \<and>
        kmeans_fit ?lib (effective_num_clusters (length ?emails) 5) 42 ()
          = Inl (LibraryError ''fit'')"
    by (simp add: library_of_def raising_kmeans_def)
  then have "fit_transform ?lib (documents_of ?emails) = Inl (LibraryError ''fit'')
      \<or> (\<exists>X names. fit_transform ?lib (documents_of ?emails) = Inr (X, names) \<and>
            kmeans_fit ?lib (effective_num_clusters (length ?emails) 5) 42 X
              = Inl (LibraryError ''fit''))"
    by blast
  from clustering_failure_fallback [OF ne this] show ?thesis .
qed


text \<open>
  Claim C8. The clustering is always run with the seed 42: two runs on the same records
  and the same requested number of clusters, with a vectorizer and an \<^verbatim>\<open>argsort\<close> that
  behave alike and clusterings that agree at seed 42 (and may differ at every other
  seed), print the same and label every record alike.
\<close>

theorem categorization_reproducible:
  assumes "fit_transform lib1 = fit_transform lib2"
    and "argsort lib1 = argsort lib2"
    and "\<forall>n X. kmeans_fit lib1 n 42 X = kmeans_fit lib2 n 42 X"
  shows "suggest_categories lib1 emails k = suggest_categories lib2 emails k"
proof -
  have "categorize_try lib1 emails documents n = categorize_try lib2 emails documents n"
    for documents n
    using assms by (intro categorize_try_agree) simp_all
  then show ?thesis
    by (simp add: suggest_categories_def Let_def)
qed

theorem categorization_reproducible_witness:
  "suggest_categories
     (library_of (Inr ((), [''invoice'', ''team'', ''due''])) (seeded_kmeans [0, 1]))
     [record_with_subject ''Invoice due'', record_with_subject ''Team''] 5
   = suggest_categories
     (library_of (Inr ((), [''invoice'', ''team'', ''due'']))
        (at_seed_42_only (seeded_kmeans [0, 1])))
     [record_with_subject ''Invoice due'', record_with_subject ''Team''] 5
   \<and> kmeans_fit (library_of (Inr ((), [''invoice'', ''team'', ''due''])) (seeded_kmeans [0, 1]))
       2 7 ()
     \<noteq> kmeans_fit (library_of (Inr ((), [''invoice'', ''team'', ''due'']))
          (at_seed_42_only (seeded_kmeans [0, 1]))) 2 7 ()"
proof -
  let ?lib1 = "library_of (Inr ((), [''invoice'', ''team'', ''due''])) (seeded_kmeans [0, 1])"
  let ?lib2 = "library_of (Inr ((), [''invoice'', ''team'', ''due'']))
                 (at_seed_42_only (seeded_kmeans [0, 1]))"
  have 1: "fit_transform ?lib1 = fit_transform ?lib2"
    by (simp add: library_of_def)
  have 2: "argsort ?lib1 = argsort ?lib2"
    by (simp add: library_of_def)
  have 3: "\<forall>n X. kmeans_fit ?lib1 n 42 X = kmeans_fit ?lib2 n 42 X"
    by (simp add: library_of_def at_seed_42_only_def)
  have d: "kmeans_fit ?lib1 2 7 () \<noteq> kmeans_fit ?lib2 2 7 ()"
    by (simp add: library_of_def seeded_kmeans_def at_seed_42_only_def)
  from categorization_reproducible [OF 1 2 3] d show ?thesis
    by blast
qed

text \<open>
  Claim C10. On an empty list of records \<^verbatim>\<open>suggest_categories\<close> returns the empty list
  and prints nothing, whatever the vectorizer and the clustering would do, those that
  raise included: neither is called, and no category is assigned.
\<close>

theorem suggest_categories_empty:
  "suggest_categories lib [] num_clusters = ([], [])"
  by (simp add: suggest_categories_def)

subsection \<open>The label of a cluster\<close>

lemma filtered_order:
  assumes "sorted_wrt R (filter P xs)" "p < q" "q < length xs" "P (xs ! p)" "P (xs ! q)"
  shows "R (xs ! p) (xs ! q)"
proof -
  from assms(2,3) have p: "p < length xs"
    by simp
  have "xs ! q = drop (Suc p) xs ! (q - Suc p)"
    using assms(2,3) by simp
  moreover have "q - Suc p < length (drop (Suc p) xs)"
    using assms(2,3) by simp
  ultimately have "xs ! q \<in> set (drop (Suc p) xs)"
    by (metis nth_mem)
  with assms(5) have q: "xs ! q \<in> set (filter P (drop (Suc p) xs))"
    by simp
  have "filter P xs = filter P (take p xs @ xs ! p # drop (Suc p) xs)"
    using id_take_nth_drop [OF p] by simp
  also have "\<dots> = filter P (take p xs) @ xs ! p # filter P (drop (Suc p) xs)"
    using assms(4) by simp
  finally have "sorted_wrt R (filter P (take p xs) @ xs ! p # filter P (drop (Suc p) xs))"
    using assms(1) by simp
  then have "\<forall>y\<in>set (filter P (drop (Suc p) xs)). R (xs ! p) y"
    by (simp add: sorted_wrt_append)
  with q show ?thesis
    by blast
qed

lemma stable_argsort_ties:
  assumes "p < q" "q < length row" "row ! (stable_argsort row ! p) = row ! (stable_argsort row ! q)"
  shows "stable_argsort row ! p < stable_argsort row ! q"
proof -
  let ?s = "stable_argsort row"
  let ?P = "\<lambda>i. row ! i = row ! (?s ! p)"
  have "filter ?P ?s = filter ?P [0..<length row]"
    unfolding stable_argsort_def by (rule sort_key_stable)
  then have "sorted_wrt (<) (filter ?P ?s)"
    by (simp add: sorted_wrt_filter sorted_wrt_upt)
  moreover have "q < length ?s"
    using assms(2) by (simp add: stable_argsort_def)
  moreover have "?P (?s ! p)" "?P (?s ! q)"
    using assms(3) by simp_all
  ultimately show ?thesis
    using assms(1) by (intro filtered_order [of "(<)" ?P ?s p q])
qed

lemma stable_argsort_contract:
  "distinct (stable_argsort row)"
  "set (stable_argsort row) = {..<length row}"
  "sorted (map (\<lambda>i. row ! i) (stable_argsort row))"
  unfolding stable_argsort_def
  by (simp_all add: atLeast0LessThan sorted_sort_key)

lemma top_indices_contract:
  fixes row :: "'w::linorder list"
  assumes d: "distinct (sorter row)" and s: "set (sorter row) = {..<length row}"
    and a: "sorted (map (\<lambda>i. row ! i) (sorter row))"
  shows "length (top_indices sorter row) = min 3 (length row)"
    and "distinct (top_indices sorter row)"
    and "set (top_indices sorter row) \<subseteq> {..<length row}"
    and "sorted (rev (map (\<lambda>i. row ! i) (top_indices sorter row)))"
    and "\<forall>i<length row. i \<notin> set (top_indices sorter row) \<longrightarrow>
           (\<forall>j\<in>set (top_indices sorter row). row ! i \<le> row ! j)"
proof -
  let ?s = "sorter row"
  let ?k = "length ?s - 3"
  have len: "length ?s = length row"
    using distinct_card [OF d] s by simp
  show "length (top_indices sorter row) = min 3 (length row)"
    using len by (simp add: top_indices_def)
  show "distinct (top_indices sorter row)"
    using d by (simp add: top_indices_def)
  show "set (top_indices sorter row) \<subseteq> {..<length row}"
    using set_drop_subset [of ?k ?s] s by (simp add: top_indices_def)
  have "sorted (drop ?k (map (\<lambda>i. row ! i) ?s))"
    using a by (rule sorted_wrt_drop)
  then show "sorted (rev (map (\<lambda>i. row ! i) (top_indices sorter row)))"
    by (simp add: top_indices_def rev_map drop_map)
  have split: "map (\<lambda>i. row ! i) (take ?k ?s) @ map (\<lambda>i. row ! i) (drop ?k ?s)
                 = map (\<lambda>i. row ! i) ?s"
    by (simp flip: map_append)
  have below: "\<forall>x\<in>set (take ?k ?s). \<forall>y\<in>set (drop ?k ?s). row ! x \<le> row ! y"
    using a unfolding split [symmetric] sorted_append by simp
  show "\<forall>i<length row. i \<notin> set (top_indices sorter row) \<longrightarrow>
           (\<forall>j\<in>set (top_indices sorter row). row ! i \<le> row ! j)"
  proof (intro allI impI ballI)
    fix i j
    assume i: "i < length row" "i \<notin> set (top_indices sorter row)"
      and j: "j \<in> set (top_indices sorter row)"
    have "set ?s = set (take ?k ?s) \<union> set (drop ?k ?s)"
      by (metis append_take_drop_id set_append)
    with i(1) s have "i \<in> set (take ?k ?s) \<union> set (drop ?k ?s)"
      by simp
    with i(2) have "i \<in> set (take ?k ?s)"
      by (simp add: top_indices_def)
    moreover from j have "j \<in> set (drop ?k ?s)"
      by (simp add: top_indices_def)
    ultimately show "row ! i \<le> row ! j"
      using below by blast
  qed
qed

lemma top_indices_stable_ties:
  assumes "a < b" "b < length (top_indices stable_argsort row)"
    and "row ! (top_indices stable_argsort row ! a) = row ! (top_indices stable_argsort row ! b)"
  shows "top_indices stable_argsort row ! b < top_indices stable_argsort row ! a"
proof -
  let ?s = "stable_argsort row"
  let ?k = "length ?s - 3"
  let ?d = "drop ?k ?s"
  have len: "length ?s = length row"
    by (simp add: stable_argsort_def)
  have top: "top_indices stable_argsort row = rev ?d"
    by (simp add: top_indices_def)
  from assms(2) have b: "b < length ?d"
    by (simp add: top)
  with assms(1) have a: "a < length ?d"
    by simp
  have ta: "top_indices stable_argsort row ! a = ?s ! (?k + (length ?d - Suc a))"
    using a by (simp add: top rev_nth)
  have tb: "top_indices stable_argsort row ! b = ?s ! (?k + (length ?d - Suc b))"
    using b by (simp add: top rev_nth)
  have "?k + (length ?d - Suc b) < ?k + (length ?d - Suc a)"
    using assms(1) a b by simp
  moreover have "?k + (length ?d - Suc a) < length row"
    using a len by simp
  moreover have "row ! (?s ! (?k + (length ?d - Suc b))) = row ! (?s ! (?k + (length ?d - Suc a)))"
    using assms(3) ta tb by simp
  ultimately have "?s ! (?k + (length ?d - Suc b)) < ?s ! (?k + (length ?d - Suc a))"
    by (rule stable_argsort_ties)
  with ta tb show ?thesis
    by simp
qed

text \<open>
  Claim C6, as amended. When the loop over the clusters succeeds, it yields one label
  for each cluster index below the number of clusters, and the label at index \<open>c\<close> is
  \<^verbatim>\<open>Category c+1\<close> followed, unless no term qualifies, by a colon and the names, joined
  by commas, of the terms at the top indices that are below the number of feature
  names. Provided \<^verbatim>\<open>argsort\<close> returns the indices of the centroid's row ordered by
  ascending weight, the top indices are three (all, when the row has fewer), distinct,
  in descending order of weight, and no other index has a greater weight than one of
  them. Terms of equal weight stand in the reverse of the order \<^verbatim>\<open>argsort\<close> returns
  them: in descending order of feature index when \<^verbatim>\<open>argsort\<close> is a stable sort.
\<close>

theorem category_label:
  fixes centers :: "'w::linorder list list"
  assumes loop: "categories_loop sorter names centers [0..<n] [] = Inr cats"
    and c: "c < n"
    and row: "row = centers ! c"
    and top: "tops = top_indices sorter row"
    and words: "words = map (\<lambda>i. names ! i) (filter (\<lambda>i. i < length names) tops)"
    and contract: "distinct (sorter row)" "set (sorter row) = {..<length row}"
      "sorted (map (\<lambda>i. row ! i) (sorter row))"
  shows "length cats = n \<and>
         cats ! c = (if words = [] then ''Category '' @ str_nat (c + 1)
                     else ''Category '' @ str_nat (c + 1) @ '': '' @ join '', '' words) \<and>
         tops = rev (drop (length (sorter row) - 3) (sorter row)) \<and>
         length tops = min 3 (length row) \<and> distinct tops \<and> set tops \<subseteq> {..<length row} \<and>
         sorted (rev (map (\<lambda>i. row ! i) tops)) \<and>
         (\<forall>i<length row. i \<notin> set tops \<longrightarrow> (\<forall>j\<in>set tops. row ! i \<le> row ! j)) \<and>
         (sorter = stable_argsort \<longrightarrow>
            (\<forall>a b. a < b \<and> b < length tops \<and> row ! (tops ! a) = row ! (tops ! b)
               \<longrightarrow> tops ! b < tops ! a))"
proof -
  note cats = categories_loop_upt [OF loop]
  from cats(2) [OF c] have "cats ! c = category_name sorter names row c"
    by (simp add: row)
  then have label: "cats ! c = (if words = [] then ''Category '' @ str_nat (c + 1)
                     else ''Category '' @ str_nat (c + 1) @ '': '' @ join '', '' words)"
    by (simp add: category_name_def words top Let_def)
  note t = top_indices_contract [of sorter row, OF contract]
  have ties: "tops ! b < tops ! a"
    if "sorter = stable_argsort" "a < b" "b < length tops" "row ! (tops ! a) = row ! (tops ! b)"
    for a b
    using that top_indices_stable_ties [of a b row] by (simp add: top)
  from cats(1) label t ties show ?thesis
    unfolding top [symmetric] by (auto simp: top top_indices_def)
qed

text \<open>
  Two centroids over three terms: in the second, the terms \<^verbatim>\<open>team\<close> and \<^verbatim>\<open>due\<close> have the
  same weight, and \<^verbatim>\<open>due\<close>, of the greater index, comes first.
\<close>

theorem category_label_witness:
  "[''Category 1: invoice, due, team'', ''Category 2: due, team, invoice''] ! 1 =
     (if [''due'', ''team'', ''invoice''] = [] then ''Category '' @ str_nat (1 + 1)
      else ''Category '' @ str_nat (1 + 1) @ '': '' @ join '', '' [''due'', ''team'', ''invoice''])
   \<and>
   [2, 1, 0] = rev (drop (length (stable_argsort [0, 3, 3 :: int]) - 3)
                      (stable_argsort [0, 3, 3 :: int])) \<and>
   sorted (rev (map (\<lambda>i. [0, 3, 3 :: int] ! i) [2, 1, 0]))"
proof -
  let ?names = "[''invoice'', ''team'', ''due'']"
  let ?centers = "[[2, 0, 1], [0, 3, 3 :: int]]"
  have loop: "categories_loop stable_argsort ?names ?centers [0..<2] []
                = Inr [''Category 1: invoice, due, team'', ''Category 2: due, team, invoice'']"
    by (simp add: category_name_def top_indices_def stable_argsort_def str_nat.simps upt_rec)
  have c: "(1::nat) < 2"
    by simp
  have row: "[0, 3, 3 :: int] = ?centers ! 1"
    by simp
  have top: "[2, 1, 0] = top_indices stable_argsort [0, 3, 3 :: int]"
    by (simp add: top_indices_def stable_argsort_def upt_rec)
  have words: "[''due'', ''team'', ''invoice''] =
      map (\<lambda>i. ?names ! i) (filter (\<lambda>i. i < length ?names) [2, 1, 0])"
    by simp
  have d: "distinct (stable_argsort [0, 3, 3 :: int])"
    by (rule stable_argsort_contract)
  have s: "set (stable_argsort [0, 3, 3 :: int]) = {..<length [0, 3, 3 :: int]}"
    by (rule stable_argsort_contract)
  have a: "sorted (map (\<lambda>i. [0, 3, 3 :: int] ! i) (stable_argsort [0, 3, 3 :: int]))"
    by (rule stable_argsort_contract)
  from category_label [OF loop c row top words d s a] show ?thesis
    by blast
qed

text \<open>
  Claim C6, as stated, fails for a stable \<^verbatim>\<open>argsort\<close>: of four terms of equal weight the
  label names the last three, the greatest index first, where ties broken in feature
  index order would name the first three.
\<close>

theorem category_ties_counterexample:
  "category_name stable_argsort [''a'', ''b'', ''c'', ''d''] [1, 1, 1, 1 :: int] 0
     = ''Category 1: d, c, b''
   \<and> spec_category_name [''a'', ''b'', ''c'', ''d''] [1, 1, 1, 1 :: int] 0
     = ''Category 1: a, b, c''"
  by (simp add: category_name_def top_indices_def stable_argsort_def spec_category_name_def
        spec_top_indices_def str_nat.simps upt_rec)

subsection \<open>Saving the categories\<close>






end
